theory Spec2Isabelle
  imports Main
begin

section \<open>Python values used by \<open>src/api/database.py\<close>\<close>

text \<open>
  The module under study is \<open>src/src/api/database.py\<close>: it reads five environment
  variables, builds one SQLAlchemy engine by branching on substrings of the connection URL,
  and offers a session generator, schema helpers, a health check and pool counters.
  Strings are ASCII texts (\<open>string\<close>); Python's unbounded \<open>int\<close> is \<open>int\<close>.
  Exceptions are values: every function that can raise returns \<open>exn + 'a\<close>, with
  \<open>Inl\<close> for the raised exception. All constructors of \<open>exn\<close> stand for subclasses
  of Python's \<open>Exception\<close>, so an \<open>except Exception\<close> clause catches each of them.
\<close>

datatype exn =
    ValueError string
  | AttributeError string
  | DBError string
  | RuntimeError string

text \<open>\<open>str(e)\<close>, as the f-strings of the log messages print an exception.\<close>

fun exn_str :: "exn \<Rightarrow> string" where
  "exn_str (ValueError m) = m"
| "exn_str (AttributeError m) = m"
| "exn_str (DBError m) = m"
| "exn_str (RuntimeError m) = m"

datatype level = INFO | WARNING | ERROR

subsection \<open>\<open>os.getenv\<close>\<close>

text \<open>
  The process environment as \<open>os.getenv\<close> sees it, that is after \<open>load_dotenv()\<close>
  has merged the \<open>.env\<close> file into \<open>os.environ\<close>.
\<close>

type_synonym environ = "string \<rightharpoonup> string"

definition os_getenv :: "environ \<Rightarrow> string \<Rightarrow> string \<Rightarrow> string" where
  "os_getenv env key dflt = (case env key of None \<Rightarrow> dflt | Some v \<Rightarrow> v)"

subsection \<open>\<open>int(str)\<close>\<close>

text \<open>
  Python's \<open>int\<close> on a string, base 10: whitespace around the text is skipped, one sign
  may lead, digits follow, and a single underscore may stand between two digits. Anything
  else raises \<open>ValueError\<close>. Whitespace, for an ASCII text, is what the interpreter's
  \<open>Py_ISSPACE\<close> accepts: the codes 9 to 13 and 32. CPython (3.11, and the security
  releases of 3.7 to 3.10)
  also raises \<open>ValueError\<close> for a text of more than \<open>sys.get_int_max_str_digits()\<close>
  digits, 4300 unless reconfigured. The \<open>ValueError\<close> carries the rejected text.
\<close>

definition max_str_digits :: nat where
  "max_str_digits = 4300"

definition is_space :: "char \<Rightarrow> bool" where
  "is_space c = (let n = (of_char c :: nat) in (9 \<le> n \<and> n \<le> 13) \<or> n = 32)"

definition is_digit :: "char \<Rightarrow> bool" where
  "is_digit c = (let n = (of_char c :: nat) in 48 \<le> n \<and> n \<le> 57)"

definition digit_val :: "char \<Rightarrow> int" where
  "digit_val c = int (of_char c) - 48"

definition strip :: "string \<Rightarrow> string" where
  "strip s = rev (dropWhile is_space (rev (dropWhile is_space s)))"

text \<open>\<open>scan_digits acc s\<close> reads the rest of a number whose digits so far are worth \<open>acc\<close>.\<close>

fun scan_digits :: "int \<Rightarrow> string \<Rightarrow> int option" where
  "scan_digits acc [] = Some acc"
| "scan_digits acc (c # cs) =
     (if is_digit c then scan_digits (10 * acc + digit_val c) cs
      else if c = CHR ''_'' then
        (case cs of
           [] \<Rightarrow> None
         | d # ds \<Rightarrow> if is_digit d then scan_digits (10 * acc + digit_val d) ds else None)
      else None)"

definition parse_decimal :: "string \<Rightarrow> int option" where
  "parse_decimal s =
     (case s of
        [] \<Rightarrow> None
      | c # cs \<Rightarrow> if is_digit c then scan_digits (digit_val c) cs else None)"

definition py_int :: "string \<Rightarrow> exn + int" where
  "py_int s =
     (let t = strip s;
          (sgn, body) =
            (case t of
               [] \<Rightarrow> (1, [])
             | c # cs \<Rightarrow>
                 if c = CHR ''+'' then (1, cs)
                 else if c = CHR ''-'' then (- 1, cs)
                 else (1, t))
      in case parse_decimal body of
           None \<Rightarrow> Inl (ValueError s)
         | Some n \<Rightarrow>
             if length (filter is_digit body) > max_str_digits then Inl (ValueError s)
             else Inr (sgn * n))"

text \<open>
  \<open>str(n)\<close> for an integer, the decimal text Python prints. The module does not call
  it on the tunables; it states what ``the variable holds the integer \<open>n\<close>'' means, and
  prints the counters in \<open>log_pool_status\<close>.
\<close>

definition digit_char :: "nat \<Rightarrow> char" where
  "digit_char d = char_of (48 + d)"

fun digits :: "nat \<Rightarrow> string" where
  "digits n = (if n < 10 then [digit_char n] else digits (n div 10) @ [digit_char (n mod 10)])"

declare digits.simps [simp del]

definition py_str :: "int \<Rightarrow> string" where
  "py_str n = (if n < 0 then CHR ''-'' # digits (nat (- n)) else digits (nat n))"

subsection \<open>The substring test \<open>sub in s\<close>\<close>

fun startswith :: "string \<Rightarrow> string \<Rightarrow> bool" where
  "startswith s [] = True"
| "startswith [] (p # ps) = False"
| "startswith (c # cs) (p # ps) = (c = p \<and> startswith cs ps)"

fun py_in :: "string \<Rightarrow> string \<Rightarrow> bool" where
  "py_in sub [] = (sub = [])"
| "py_in sub (c # cs) = (startswith (c # cs) sub \<or> py_in sub cs)"

section \<open>Configuration resolution (lines 20 to 31)\<close>

definition DATABASE_URL :: "environ \<Rightarrow> string" where
  "DATABASE_URL env = os_getenv env ''DATABASE_URL'' ''sqlite:///./churn_api.db''"

definition DB_POOL_SIZE :: "environ \<Rightarrow> exn + int" where
  "DB_POOL_SIZE env = py_int (os_getenv env ''DB_POOL_SIZE'' ''20'')"

definition DB_MAX_OVERFLOW :: "environ \<Rightarrow> exn + int" where
  "DB_MAX_OVERFLOW env = py_int (os_getenv env ''DB_MAX_OVERFLOW'' ''10'')"

definition DB_POOL_TIMEOUT :: "environ \<Rightarrow> exn + int" where
  "DB_POOL_TIMEOUT env = py_int (os_getenv env ''DB_POOL_TIMEOUT'' ''30'')"

definition DB_POOL_RECYCLE :: "environ \<Rightarrow> exn + int" where
  "DB_POOL_RECYCLE env = py_int (os_getenv env ''DB_POOL_RECYCLE'' ''3600'')"

text \<open>
  The five module-level assignments run in this order; the first \<open>int\<close> that raises
  ends the import of the module with its exception.
\<close>

record config =
  cfg_url :: string
  cfg_pool_size :: int
  cfg_max_overflow :: int
  cfg_pool_timeout :: int
  cfg_pool_recycle :: int

definition resolve_config :: "environ \<Rightarrow> exn + config" where
  "resolve_config env =
     (let u = DATABASE_URL env in
      case DB_POOL_SIZE env of Inl e \<Rightarrow> Inl e | Inr ps \<Rightarrow>
      case DB_MAX_OVERFLOW env of Inl e \<Rightarrow> Inl e | Inr mo \<Rightarrow>
      case DB_POOL_TIMEOUT env of Inl e \<Rightarrow> Inl e | Inr pt \<Rightarrow>
      case DB_POOL_RECYCLE env of Inl e \<Rightarrow> Inl e | Inr pr \<Rightarrow>
        Inr \<lparr>cfg_url = u, cfg_pool_size = ps, cfg_max_overflow = mo,
             cfg_pool_timeout = pt, cfg_pool_recycle = pr\<rparr>)"

section \<open>Engine construction (lines 38 to 78)\<close>

text \<open>
  The engine is modelled by the arguments this module hands to \<open>create_engine\<close>: a keyword
  the call does not pass is \<open>None\<close>. \<open>connect_args\<close> is the dictionary literal, in order.
\<close>

datatype poolclass_t = QueuePool

datatype arg_value = StrArg string | IntArg int | BoolArg bool

record engine_args =
  url :: string
  poolclass :: "poolclass_t option"
  pool_size :: "int option"
  max_overflow :: "int option"
  pool_timeout :: "int option"
  pool_recycle :: "int option"
  pool_pre_ping :: "bool option"
  connect_args :: "(string \<times> arg_value) list option"
  echo :: "bool option"

definition connect_arg :: "(string \<times> arg_value) list" where
  "connect_arg = [(''sslmode'', StrArg ''require''), (''connect_timeout'', IntArg 10)]"

text \<open>The branch returns the line it logs together with the engine.\<close>

definition engine :: "config \<Rightarrow> (level \<times> string) \<times> engine_args" where
  "engine c =
     (if py_in ''supabase'' (cfg_url c) \<or> py_in ''pooler.supabase.com'' (cfg_url c) then
        ((INFO, ''Using Supabase PostgreSQL''),
         \<lparr>url = cfg_url c, poolclass = Some QueuePool,
          pool_size = Some (cfg_pool_size c), max_overflow = Some (cfg_max_overflow c),
          pool_timeout = Some (cfg_pool_timeout c), pool_recycle = Some (cfg_pool_recycle c),
          pool_pre_ping = Some True, connect_args = Some connect_arg, echo = Some False\<rparr>)
      else if py_in ''postgresql'' (cfg_url c) then
        ((INFO, ''Using PostgreSQL''),
         \<lparr>url = cfg_url c, poolclass = Some QueuePool,
          pool_size = Some (cfg_pool_size c), max_overflow = Some (cfg_max_overflow c),
          pool_timeout = Some (cfg_pool_timeout c), pool_recycle = Some (cfg_pool_recycle c),
          pool_pre_ping = Some True, connect_args = None, echo = None\<rparr>)
      else
        ((WARNING, ''Using SQLite (not recommended for production)''),
         \<lparr>url = cfg_url c, poolclass = None,
          pool_size = None, max_overflow = None,
          pool_timeout = None, pool_recycle = None,
          pool_pre_ping = None,
          connect_args = Some [(''check_same_thread'', BoolArg False)], echo = Some False\<rparr>))"

section \<open>The database and the library calls\<close>

text \<open>
  What the functions below do to the outside is a sequence of library calls and log lines,
  kept in order in \<open>events\<close>. The database is the map \<open>tables\<close> from the names of the
  tables that exist to their number of rows. Whether a library call raises is not decided
  by this module: a \<open>behaviour\<close> gives, for each call, the exception it raises, if any.
  A call is recorded whether it raises or not.
\<close>

datatype call =
    SessionLocal
  | SessionExecute string
  | SessionClose
  | CreateAll
  | CreateTable string
  | DropAll
  | DropTable string
  | EngineConnect
  | ConnExecute string
  | ConnClose

datatype event = Called call | Logged level string

type_synonym behaviour = "call \<Rightarrow> exn option"

record world =
  tables :: "string \<rightharpoonup> nat"
  events :: "event list"

definition logger :: "level \<Rightarrow> string \<Rightarrow> world \<Rightarrow> world" where
  "logger l m w = w\<lparr>events := events w @ [Logged l m]\<rparr>"

definition lib_call :: "behaviour \<Rightarrow> call \<Rightarrow> world \<Rightarrow> (exn + unit) \<times> world" where
  "lib_call b c w =
     ((case b c of Some e \<Rightarrow> Inl e | None \<Rightarrow> Inr ()), w\<lparr>events := events w @ [Called c]\<rparr>)"

subsection \<open>\<open>Base.metadata.create_all\<close> and \<open>drop_all\<close>\<close>

text \<open>
  The schema registry \<open>Base.metadata\<close> is the list \<open>reg\<close> of the registered table names,
  in dependency order. As SQLAlchemy documents them, \<open>create_all\<close> and \<open>drop_all\<close> take a
  connection from the engine (the calls \<open>CreateAll\<close> and \<open>DropAll\<close>), then go through the
  registered tables only, with \<open>checkfirst=True\<close>: \<open>create_all\<close> creates, in order, each
  one that does not exist, \<open>drop_all\<close> drops, in reverse order, each one that exists. The
  first statement that raises ends the run. A created table has no rows.
\<close>

fun create_tables :: "behaviour \<Rightarrow> string list \<Rightarrow> world \<Rightarrow> (exn + unit) \<times> world" where
  "create_tables b [] w = (Inr (), w)"
| "create_tables b (t # ts) w =
     (if tables w t \<noteq> None then create_tables b ts w
      else case lib_call b (CreateTable t) w of
             (Inl e, w') \<Rightarrow> (Inl e, w')
           | (Inr u, w') \<Rightarrow> create_tables b ts (w'\<lparr>tables := (tables w')(t \<mapsto> 0)\<rparr>))"

definition create_all :: "behaviour \<Rightarrow> string list \<Rightarrow> world \<Rightarrow> (exn + unit) \<times> world" where
  "create_all b reg w =
     (case lib_call b CreateAll w of
        (Inl e, w') \<Rightarrow> (Inl e, w')
      | (Inr u, w') \<Rightarrow> create_tables b reg w')"

fun drop_tables :: "behaviour \<Rightarrow> string list \<Rightarrow> world \<Rightarrow> (exn + unit) \<times> world" where
  "drop_tables b [] w = (Inr (), w)"
| "drop_tables b (t # ts) w =
     (if tables w t = None then drop_tables b ts w
      else case lib_call b (DropTable t) w of
             (Inl e, w') \<Rightarrow> (Inl e, w')
           | (Inr u, w') \<Rightarrow> drop_tables b ts (w'\<lparr>tables := (tables w')(t := None)\<rparr>))"

definition drop_all :: "behaviour \<Rightarrow> string list \<Rightarrow> world \<Rightarrow> (exn + unit) \<times> world" where
  "drop_all b reg w =
     (case lib_call b DropAll w of
        (Inl e, w') \<Rightarrow> (Inl e, w')
      | (Inr u, w') \<Rightarrow> drop_tables b (rev reg) w')"

section \<open>Schema helpers (lines 120 to 157)\<close>

text \<open>
  The body of the \<open>try\<close> of \<open>init_db\<close>. Leaving the \<open>with\<close> block closes the connection,
  also when \<open>conn.execute\<close> raised; an exception of the close replaces the one in flight.
\<close>

definition init_db_try :: "behaviour \<Rightarrow> string list \<Rightarrow> world \<Rightarrow> (exn + unit) \<times> world" where
  "init_db_try b reg w =
     (case create_all b reg w of
        (Inl e, w1) \<Rightarrow> (Inl e, w1)
      | (Inr u, w1) \<Rightarrow>
          (case lib_call b EngineConnect (logger INFO ''Database tables created successfully'' w1) of
             (Inl e, w2) \<Rightarrow> (Inl e, w2)
           | (Inr u, w2) \<Rightarrow>
               (case lib_call b (ConnExecute ''SELECT 1'') w2 of
                  (Inl e, w3) \<Rightarrow>
                    (case lib_call b ConnClose w3 of
                       (Inl e', w4) \<Rightarrow> (Inl e', w4)
                     | (Inr u, w4) \<Rightarrow> (Inl e, w4))
                | (Inr u, w3) \<Rightarrow>
                    lib_call b ConnClose
                      (logger INFO ''Database connection test successful'' w3))))"

definition init_db :: "behaviour \<Rightarrow> string list \<Rightarrow> world \<Rightarrow> (exn + unit) \<times> world" where
  "init_db b reg w =
     (case init_db_try b reg w of
        (Inl e, w') \<Rightarrow>
          (Inl e, logger ERROR (''Failed to create database tables: '' @ exn_str e) w')
      | (Inr u, w') \<Rightarrow> (Inr (), w'))"

definition drop_db :: "behaviour \<Rightarrow> string list \<Rightarrow> world \<Rightarrow> (exn + unit) \<times> world" where
  "drop_db b reg w =
     (case drop_all b reg w of
        (Inl e, w') \<Rightarrow>
          (Inl e, logger ERROR (''Failed to drop database tables: '' @ exn_str e) w')
      | (Inr u, w') \<Rightarrow> (Inr (), logger WARNING ''All database tables dropped'' w'))"

definition reset_db :: "behaviour \<Rightarrow> string list \<Rightarrow> world \<Rightarrow> (exn + unit) \<times> world" where
  "reset_db b reg w =
     (case drop_db b reg w of
        (Inl e, w') \<Rightarrow> (Inl e, w')
      | (Inr u, w') \<Rightarrow> init_db b reg w')"

section \<open>Health check (lines 163 to 177)\<close>

definition check_db_connection_try :: "behaviour \<Rightarrow> world \<Rightarrow> (exn + bool) \<times> world" where
  "check_db_connection_try b w =
     (case lib_call b SessionLocal w of
        (Inl e, w1) \<Rightarrow> (Inl e, w1)
      | (Inr u, w1) \<Rightarrow>
          (case lib_call b (SessionExecute ''SELECT 1'') w1 of
             (Inl e, w2) \<Rightarrow> (Inl e, w2)
           | (Inr u, w2) \<Rightarrow>
               (case lib_call b SessionClose w2 of
                  (Inl e, w3) \<Rightarrow> (Inl e, w3)
                | (Inr u, w3) \<Rightarrow> (Inr True, w3))))"

definition check_db_connection :: "behaviour \<Rightarrow> world \<Rightarrow> bool \<times> world" where
  "check_db_connection b w =
     (case check_db_connection_try b w of
        (Inl e, w') \<Rightarrow>
          (False, logger ERROR (''Database connection check failed: '' @ exn_str e) w')
      | (Inr r, w') \<Rightarrow> (r, w'))"

section \<open>The session generator \<open>get_db\<close> (lines 98 to 114)\<close>

text \<open>
  A generator is a state machine that its caller drives: \<open>next(g)\<close>, \<open>g.throw(e)\<close> and
  \<open>g.close()\<close> (which the interpreter also calls when it collects a suspended generator).
  \<open>get_db\<close> has three states: not started, suspended at its \<open>yield\<close> inside the \<open>try\<close>, and
  finished. Resuming it at the \<open>yield\<close>, in any of the three ways, runs the \<open>finally\<close>
  clause; a generator that was never started, or has finished, runs no code of its body.
  An exception raised by \<open>db.close()\<close> in the \<open>finally\<close> clause replaces what was in flight.
\<close>

datatype gen_pc = Created | Suspended | Finished

datatype gen_op = Next | Throw exn | Close

datatype gen_out = Yield | StopIteration | Raise exn | Return

fun get_db :: "behaviour \<Rightarrow> gen_op \<Rightarrow> gen_pc \<times> world \<Rightarrow> gen_out \<times> gen_pc \<times> world" where
  "get_db b Next (Created, w) =
     (case lib_call b SessionLocal w of
        (Inl e, w') \<Rightarrow> (Raise e, Finished, w')
      | (Inr u, w') \<Rightarrow> (Yield, Suspended, w'))"
| "get_db b (Throw e) (Created, w) = (Raise e, Finished, w)"
| "get_db b Close (Created, w) = (Return, Finished, w)"
| "get_db b Next (Suspended, w) =
     (case lib_call b SessionClose w of
        (Inl e', w') \<Rightarrow> (Raise e', Finished, w')
      | (Inr u, w') \<Rightarrow> (StopIteration, Finished, w'))"
| "get_db b (Throw e) (Suspended, w) =
     (case lib_call b SessionClose w of
        (Inl e', w') \<Rightarrow> (Raise e', Finished, w')
      | (Inr u, w') \<Rightarrow> (Raise e, Finished, w'))"
| "get_db b Close (Suspended, w) =
     (case lib_call b SessionClose w of
        (Inl e', w') \<Rightarrow> (Raise e', Finished, w')
      | (Inr u, w') \<Rightarrow> (Return, Finished, w'))"
| "get_db b Next (Finished, w) = (StopIteration, Finished, w)"
| "get_db b (Throw e) (Finished, w) = (Raise e, Finished, w)"
| "get_db b Close (Finished, w) = (Return, Finished, w)"

text \<open>The caller's operations on one generator, in order, with what each returned.\<close>

fun drive :: "behaviour \<Rightarrow> gen_op list \<Rightarrow> gen_pc \<times> world \<Rightarrow> gen_out list \<times> gen_pc \<times> world" where
  "drive b [] s = ([], s)"
| "drive b (x # xs) s =
     (case get_db b x s of
        (out, s') \<Rightarrow> (case drive b xs s' of (outs, s'') \<Rightarrow> (out # outs, s'')))"

section \<open>Pool counters (lines 183 to 202)\<close>








section \<open>Facts about the builtins\<close>

lemma startswith_iff: "startswith s p \<longleftrightarrow> (\<exists>r. s = p @ r)"
  by (induction s p rule: startswith.induct) auto

lemma py_in_iff: "py_in sub s \<longleftrightarrow> (\<exists>p r. s = p @ sub @ r)"
proof (induction s)
  case Nil
  then show ?case by auto
next
  case (Cons c cs)
  show ?case
  proof
    assume "py_in sub (c # cs)"
    then consider "startswith (c # cs) sub" | "py_in sub cs" by auto
    then show "\<exists>p r. c # cs = p @ sub @ r"
    proof cases
      case 1
      then obtain r where "c # cs = sub @ r" by (auto simp: startswith_iff)
      then have "c # cs = [] @ sub @ r" by simp
      then show ?thesis by blast
    next
      case 2
      then obtain p r where "cs = p @ sub @ r" using Cons.IH by blast
      then have "c # cs = (c # p) @ sub @ r" by simp
      then show ?thesis by blast
    qed
  next
    assume "\<exists>p r. c # cs = p @ sub @ r"
    then obtain p r where eq: "c # cs = p @ sub @ r" by blast
    show "py_in sub (c # cs)"
    proof (cases p)
      case Nil
      with eq have "startswith (c # cs) sub" by (auto simp: startswith_iff)
      then show ?thesis by simp
    next
      case (Cons a p')
      with eq have "cs = p' @ sub @ r" by simp
      then have "py_in sub cs" using Cons.IH by blast
      then show ?thesis by simp
    qed
  qed
qed

lemma py_in_trans: "py_in a b \<Longrightarrow> py_in b s \<Longrightarrow> py_in a s"
proof -
  assume "py_in a b" and "py_in b s"
  then obtain p r p' r' where "b = p @ a @ r" and "s = p' @ b @ r'"
    by (auto simp: py_in_iff)
  then have "s = (p' @ p) @ a @ (r @ r')" by simp
  then show ?thesis unfolding py_in_iff by blast
qed

lemma supabase_in_pooler: "py_in ''supabase'' ''pooler.supabase.com''"
  by simp

lemma pooler_implies_supabase: "py_in ''pooler.supabase.com'' u \<Longrightarrow> py_in ''supabase'' u"
  using py_in_trans [OF supabase_in_pooler] .

subsection \<open>\<open>int\<close> reads back what \<open>str\<close> prints\<close>

lemma digits_all_digit: "\<forall>c \<in> set (digits n). is_digit c"
proof (induction n rule: digits.induct)
  case (1 n)
  have d: "\<And>k. k < 10 \<Longrightarrow> is_digit (digit_char k)"
    by (simp add: is_digit_def digit_char_def)
  show ?case
  proof (cases "n < 10")
    case True
    then show ?thesis using d by (subst digits.simps) simp
  next
    case False
    with 1 d show ?thesis by (subst digits.simps) simp
  qed
qed

lemma digits_nonempty: "digits n \<noteq> []"
  by (subst digits.simps) simp

lemma digit_val_char: "k < 10 \<Longrightarrow> digit_val (digit_char k) = int k"
  by (simp add: digit_val_def digit_char_def)

lemma scan_digits_foldl:
  "\<forall>c \<in> set ds. is_digit c \<Longrightarrow>
   scan_digits acc ds = Some (foldl (\<lambda>a c. 10 * a + digit_val c) acc ds)"
  by (induction ds arbitrary: acc) auto

lemma foldl_digits: "foldl (\<lambda>a c. 10 * a + digit_val c) 0 (digits n) = int n"
proof (induction n rule: digits.induct)
  case (1 n)
  show ?case
  proof (cases "n < 10")
    case True
    then show ?thesis by (subst digits.simps) (simp add: digit_val_char)
  next
    case False
    with 1 have "foldl (\<lambda>a c. 10 * a + digit_val c) 0 (digits (n div 10)) = int (n div 10)"
      by simp
    with False show ?thesis
      by (subst digits.simps) (simp add: digit_val_char zdiv_int zmod_int)
  qed
qed

lemma parse_decimal_digits: "parse_decimal (digits n) = Some (int n)"
proof -
  obtain c cs where eq: "digits n = c # cs"
    using digits_nonempty by (cases "digits n") auto
  have all: "\<forall>c \<in> set (c # cs). is_digit c"
    using digits_all_digit [of n] eq by simp
  then have "parse_decimal (c # cs) = scan_digits 0 (c # cs)"
    by (simp add: parse_decimal_def)
  also have "\<dots> = Some (foldl (\<lambda>a c. 10 * a + digit_val c) 0 (c # cs))"
    using all by (rule scan_digits_foldl)
  finally show ?thesis using foldl_digits [of n] eq by simp
qed

lemma digit_not_space: "is_digit c \<Longrightarrow> \<not> is_space c"
  by (auto simp: is_digit_def is_space_def Let_def)

lemma strip_id: "s \<noteq> [] \<Longrightarrow> \<not> is_space (hd s) \<Longrightarrow> \<not> is_space (last s) \<Longrightarrow> strip s = s"
proof -
  assume a: "s \<noteq> []" "\<not> is_space (hd s)" "\<not> is_space (last s)"
  then have 1: "dropWhile is_space s = s" by (cases s) auto
  from a have "rev s \<noteq> []" "\<not> is_space (hd (rev s))" by (auto simp: hd_rev)
  then have 2: "dropWhile is_space (rev s) = rev s" by (cases "rev s") auto
  show ?thesis by (simp add: strip_def 1 2)
qed

lemma length_digits: "n < 10 ^ k \<Longrightarrow> 0 < k \<Longrightarrow> length (digits n) \<le> k"
proof (induction n arbitrary: k rule: digits.induct)
  case (1 n)
  show ?case
  proof (cases "n < 10")
    case True
    then show ?thesis using 1(3) by (subst digits.simps) simp
  next
    case False
    obtain j where k: "k = Suc j" using 1(3) by (cases k) auto
    with 1(2) False have j: "0 < j" by (cases j) auto
    from 1(2) k have "n div 10 < 10 ^ j"
      by (simp add: less_mult_imp_div_less mult.commute)
    with 1(1) False j have "length (digits (n div 10)) \<le> j" by simp
    with False k show ?thesis by (subst digits.simps) simp
  qed
qed

lemma py_int_py_str:
  assumes "\<bar>n\<bar> < 10 ^ max_str_digits"
  shows "py_int (py_str n) = Inr n"
proof -
  let ?m = "nat \<bar>n\<bar>"
  let ?ds = "digits ?m"
  have lim: "length (filter is_digit ?ds) \<le> max_str_digits"
  proof -
    have "?m < 10 ^ max_str_digits" using assms
      by (metis nat_less_iff abs_ge_zero of_nat_power of_nat_numeral)
    then have "length ?ds \<le> max_str_digits"
      by (rule length_digits) (simp add: max_str_digits_def)
    moreover have "length (filter is_digit ?ds) \<le> length ?ds" by simp
    ultimately show ?thesis by linarith
  qed
  have hd_d: "is_digit (hd ?ds)" and last_d: "is_digit (last ?ds)"
    using digits_all_digit [of ?m] digits_nonempty [of ?m] by auto
  have pd: "parse_decimal ?ds = Some (int ?m)" by (rule parse_decimal_digits)
  show ?thesis
  proof (cases "n < 0")
    case True
    have minus: "\<not> is_space CHR ''-''" by (simp add: is_space_def)
    have "strip (CHR ''-'' # ?ds) = CHR ''-'' # ?ds"
      using minus last_d digits_nonempty [of ?m] by (intro strip_id) (auto dest: digit_not_space)
    moreover have "py_str n = CHR ''-'' # ?ds" using True by (simp add: py_str_def abs_if)
    ultimately show ?thesis using pd lim True by (simp add: py_int_def)
  next
    case False
    have st: "strip ?ds = ?ds"
      using hd_d last_d digits_nonempty [of ?m] by (intro strip_id) (auto dest: digit_not_space)
    have ps: "py_str n = ?ds" using False by (simp add: py_str_def abs_if)
    obtain c cs where eq: "?ds = c # cs" using digits_nonempty [of ?m] by (cases ?ds) auto
    have "is_digit c" using hd_d eq by simp
    then have "c \<noteq> CHR ''+''" "c \<noteq> CHR ''-''" by (auto simp: is_digit_def)
    then show ?thesis using pd lim False st ps eq by (simp add: py_int_def)
  qed
qed

lemma default_texts:
  "py_int ''20'' = Inr 20" "py_int ''10'' = Inr 10" "py_int ''30'' = Inr 30"
  "py_int ''3600'' = Inr 3600"
  by (simp_all add: py_int_def strip_def is_space_def parse_decimal_def is_digit_def
      digit_val_def max_str_digits_def)

lemma small_in_limit: "\<bar>n\<bar> < 10000 \<Longrightarrow> \<bar>n\<bar> < (10::int) ^ max_str_digits"
proof -
  assume a: "\<bar>n\<bar> < 10000"
  have "(10::int) ^ 4 \<le> 10 ^ max_str_digits"
    by (rule power_increasing) (simp_all add: max_str_digits_def)
  with a show ?thesis by simp
qed

section \<open>The engine branches\<close>

text \<open>
  Claim C1. For every configuration, the engine is decided by the URL alone: a URL that
  contains \<open>supabase\<close> gets the queue pool with the four pool tunables, the liveness ping,
  \<open>sslmode = require\<close> and a connect timeout of 10 seconds; otherwise a URL that contains
  \<open>postgresql\<close> gets the same pool and ping and no connect arguments; every other URL gets
  the fallback engine, with no pool argument, no ping and \<open>check_same_thread = False\<close>.
  The second test of the first branch, for \<open>pooler.supabase.com\<close>, adds nothing, since
  that marker contains \<open>supabase\<close>.
\<close>

theorem C1_engine_branches:
  "snd (engine c) =
     (if py_in ''supabase'' (cfg_url c) then
        \<lparr>url = cfg_url c, poolclass = Some QueuePool,
         pool_size = Some (cfg_pool_size c), max_overflow = Some (cfg_max_overflow c),
         pool_timeout = Some (cfg_pool_timeout c), pool_recycle = Some (cfg_pool_recycle c),
         pool_pre_ping = Some True,
         connect_args = Some [(''sslmode'', StrArg ''require''), (''connect_timeout'', IntArg 10)],
         echo = Some False\<rparr>
      else if py_in ''postgresql'' (cfg_url c) then
        \<lparr>url = cfg_url c, poolclass = Some QueuePool,
         pool_size = Some (cfg_pool_size c), max_overflow = Some (cfg_max_overflow c),
         pool_timeout = Some (cfg_pool_timeout c), pool_recycle = Some (cfg_pool_recycle c),
         pool_pre_ping = Some True, connect_args = None, echo = None\<rparr>
      else
        \<lparr>url = cfg_url c, poolclass = None, pool_size = None, max_overflow = None,
         pool_timeout = None, pool_recycle = None, pool_pre_ping = None,
         connect_args = Some [(''check_same_thread'', BoolArg False)], echo = Some False\<rparr>)"
proof (cases "py_in ''supabase'' (cfg_url c)")
  case True
  then show ?thesis by (simp add: engine_def connect_arg_def)
next
  case False
  then have "\<not> py_in ''pooler.supabase.com'' (cfg_url c)"
    using pooler_implies_supabase by blast
  with False show ?thesis by (simp add: engine_def)
qed

theorem C1_engine_branches_witness:
  "connect_args (snd (engine
       \<lparr>cfg_url = ''postgresql://u:p@aws-0.pooler.supabase.com:6543/postgres'',
        cfg_pool_size = 20, cfg_max_overflow = 10, cfg_pool_timeout = 30,
        cfg_pool_recycle = 3600\<rparr>))
     = Some [(''sslmode'', StrArg ''require''), (''connect_timeout'', IntArg 10)]
   \<and> snd (engine
       \<lparr>cfg_url = ''postgresql://u:p@localhost:5432/churn'',
        cfg_pool_size = 20, cfg_max_overflow = 10, cfg_pool_timeout = 30,
        cfg_pool_recycle = 3600\<rparr>) =
       \<lparr>url = ''postgresql://u:p@localhost:5432/churn'', poolclass = Some QueuePool,
         pool_size = Some 20, max_overflow = Some 10,
         pool_timeout = Some 30, pool_recycle = Some 3600,
         pool_pre_ping = Some True, connect_args = None, echo = None\<rparr>
   \<and> pool_pre_ping (snd (engine
       \<lparr>cfg_url = ''sqlite:///./churn_api.db'',
        cfg_pool_size = 20, cfg_max_overflow = 10, cfg_pool_timeout = 30,
        cfg_pool_recycle = 3600\<rparr>)) = None"
  using
    C1_engine_branches [of "\<lparr>cfg_url = ''postgresql://u:p@aws-0.pooler.supabase.com:6543/postgres'',
        cfg_pool_size = 20, cfg_max_overflow = 10, cfg_pool_timeout = 30,
        cfg_pool_recycle = 3600\<rparr>"]
    C1_engine_branches [of "\<lparr>cfg_url = ''postgresql://u:p@localhost:5432/churn'',
        cfg_pool_size = 20, cfg_max_overflow = 10, cfg_pool_timeout = 30,
        cfg_pool_recycle = 3600\<rparr>"]
    C1_engine_branches [of "\<lparr>cfg_url = ''sqlite:///./churn_api.db'',
        cfg_pool_size = 20, cfg_max_overflow = 10, cfg_pool_timeout = 30,
        cfg_pool_recycle = 3600\<rparr>"]
  by simp

text \<open>
  Claim C10. A URL that contains both markers, such as a \<open>postgresql://\<close> URL of a Supabase
  host, takes the first branch: the engine has \<open>sslmode = require\<close> and the connect timeout
  of 10 seconds, and the line logged is the one of the Supabase branch, not the one of the
  generic branch.
\<close>

theorem C10_supabase_precedence:
  assumes "py_in ''supabase'' (cfg_url c)" and "py_in ''postgresql'' (cfg_url c)"
  shows "engine c =
     ((INFO, ''Using Supabase PostgreSQL''),
      \<lparr>url = cfg_url c, poolclass = Some QueuePool,
       pool_size = Some (cfg_pool_size c), max_overflow = Some (cfg_max_overflow c),
       pool_timeout = Some (cfg_pool_timeout c), pool_recycle = Some (cfg_pool_recycle c),
       pool_pre_ping = Some True,
       connect_args = Some [(''sslmode'', StrArg ''require''), (''connect_timeout'', IntArg 10)],
       echo = Some False\<rparr>)
   \<and> fst (engine c) \<noteq> (INFO, ''Using PostgreSQL'')"
  using assms by (simp add: engine_def connect_arg_def)

theorem C10_supabase_precedence_witness:
  "py_in ''supabase'' ''postgresql://postgres:pw@db.abcdefgh.supabase.co:5432/postgres''
   \<and> py_in ''postgresql'' ''postgresql://postgres:pw@db.abcdefgh.supabase.co:5432/postgres''
   \<and> engine \<lparr>cfg_url = ''postgresql://postgres:pw@db.abcdefgh.supabase.co:5432/postgres'',
        cfg_pool_size = 20, cfg_max_overflow = 10, cfg_pool_timeout = 30,
        cfg_pool_recycle = 3600\<rparr> =
     ((INFO, ''Using Supabase PostgreSQL''),
      \<lparr>url = ''postgresql://postgres:pw@db.abcdefgh.supabase.co:5432/postgres'',
       poolclass = Some QueuePool, pool_size = Some 20, max_overflow = Some 10,
       pool_timeout = Some 30, pool_recycle = Some 3600, pool_pre_ping = Some True,
       connect_args = Some [(''sslmode'', StrArg ''require''), (''connect_timeout'', IntArg 10)],
       echo = Some False\<rparr>)"
proof -
  have a: "py_in ''supabase'' ''postgresql://postgres:pw@db.abcdefgh.supabase.co:5432/postgres''"
    by simp
  have b: "py_in ''postgresql'' ''postgresql://postgres:pw@db.abcdefgh.supabase.co:5432/postgres''"
    by simp
  show ?thesis
    using a b
      C10_supabase_precedence
        [of "\<lparr>cfg_url = ''postgresql://postgres:pw@db.abcdefgh.supabase.co:5432/postgres'',
        cfg_pool_size = 20, cfg_max_overflow = 10, cfg_pool_timeout = 30,
        cfg_pool_recycle = 3600\<rparr>"]
    by simp
qed

section \<open>Configuration resolution\<close>

text \<open>
  Claim C2. Each of the five settings is read from its environment variable: the URL is
  the variable's text when it is set and \<open>sqlite:///./churn_api.db\<close> when it is not; each
  pool tunable is \<open>int\<close> of the variable's text when it is set, with nothing else done to
  it, and 20, 10, 30 and 3600 when it is not. \<open>int\<close> reads the decimal text of an integer
  back as that integer (up to the interpreter's limit on the number of digits).
\<close>

theorem C2_environment_overrides_defaults:
  "DATABASE_URL env =
     (case env ''DATABASE_URL'' of None \<Rightarrow> ''sqlite:///./churn_api.db'' | Some v \<Rightarrow> v)
   \<and> DB_POOL_SIZE env = (case env ''DB_POOL_SIZE'' of None \<Rightarrow> Inr 20 | Some v \<Rightarrow> py_int v)
   \<and> DB_MAX_OVERFLOW env = (case env ''DB_MAX_OVERFLOW'' of None \<Rightarrow> Inr 10 | Some v \<Rightarrow> py_int v)
   \<and> DB_POOL_TIMEOUT env = (case env ''DB_POOL_TIMEOUT'' of None \<Rightarrow> Inr 30 | Some v \<Rightarrow> py_int v)
   \<and> DB_POOL_RECYCLE env = (case env ''DB_POOL_RECYCLE'' of None \<Rightarrow> Inr 3600 | Some v \<Rightarrow> py_int v)
   \<and> (\<forall>n. \<bar>n\<bar> < 10 ^ max_str_digits \<longrightarrow> py_int (py_str n) = Inr n)"
  by (simp add: DATABASE_URL_def DB_POOL_SIZE_def DB_MAX_OVERFLOW_def DB_POOL_TIMEOUT_def
      DB_POOL_RECYCLE_def os_getenv_def default_texts py_int_py_str split: option.split)

theorem C2_environment_overrides_defaults_witness:
  "DATABASE_URL [''DATABASE_URL'' \<mapsto> ''postgresql://u:p@localhost:5432/churn'',
                 ''DB_POOL_SIZE'' \<mapsto> ''50'']
     = ''postgresql://u:p@localhost:5432/churn''
   \<and> DB_POOL_SIZE [''DATABASE_URL'' \<mapsto> ''postgresql://u:p@localhost:5432/churn'',
                   ''DB_POOL_SIZE'' \<mapsto> ''50''] = Inr 50
   \<and> DB_POOL_RECYCLE [''DATABASE_URL'' \<mapsto> ''postgresql://u:p@localhost:5432/churn'',
                   ''DB_POOL_SIZE'' \<mapsto> ''50''] = Inr 3600
   \<and> py_int (py_str 50) = Inr 50"
proof -
  have l: "\<bar>50\<bar> < (10::int) ^ max_str_digits" by (rule small_in_limit) simp
  have p: "py_int ''50'' = Inr 50"
    by (simp add: py_int_def strip_def is_space_def parse_decimal_def is_digit_def
      digit_val_def max_str_digits_def)
  show ?thesis
    using C2_environment_overrides_defaults
      [of "[''DATABASE_URL'' \<mapsto> ''postgresql://u:p@localhost:5432/churn'',
            ''DB_POOL_SIZE'' \<mapsto> ''50'']"] l p
    by simp
qed

text \<open>
  Claim C9, as stated, fails: the module converts each tunable with \<open>int\<close>, which raises
  \<open>ValueError\<close> on a text that is not an integer literal, at import time.
\<close>

theorem C9_counterexample:
  "resolve_config [''DB_POOL_SIZE'' \<mapsto> ''abc''] = Inl (ValueError ''abc'')"
  by (simp add: resolve_config_def DB_POOL_SIZE_def os_getenv_def py_int_def strip_def
      is_space_def parse_decimal_def is_digit_def)

text \<open>
  Claim C9, amended. Configuration resolution checks no range: every integer value of a
  pool tunable, negative or zero included, written in decimal, is taken unchanged and
  raises nothing. Resolution succeeds exactly when each of the four tunables is an integer
  literal; a text that is not one makes \<open>int\<close> raise \<open>ValueError\<close> in this module, during
  configuration resolution.
\<close>

theorem C9_no_range_validation:
  "(\<bar>ps\<bar> < 10 ^ max_str_digits \<and> \<bar>mo\<bar> < 10 ^ max_str_digits
      \<and> \<bar>pt\<bar> < 10 ^ max_str_digits \<and> \<bar>pr\<bar> < 10 ^ max_str_digits
      \<and> env ''DB_POOL_SIZE'' = Some (py_str ps) \<and> env ''DB_MAX_OVERFLOW'' = Some (py_str mo)
      \<and> env ''DB_POOL_TIMEOUT'' = Some (py_str pt) \<and> env ''DB_POOL_RECYCLE'' = Some (py_str pr)
    \<longrightarrow> resolve_config env =
          Inr \<lparr>cfg_url = DATABASE_URL env, cfg_pool_size = ps, cfg_max_overflow = mo,
               cfg_pool_timeout = pt, cfg_pool_recycle = pr\<rparr>)
   \<and> ((\<exists>c. resolve_config env = Inr c) \<longleftrightarrow>
        \<not> isl (DB_POOL_SIZE env) \<and> \<not> isl (DB_MAX_OVERFLOW env)
        \<and> \<not> isl (DB_POOL_TIMEOUT env) \<and> \<not> isl (DB_POOL_RECYCLE env))
   \<and> (\<forall>e. DB_POOL_SIZE env = Inl e \<longrightarrow> resolve_config env = Inl e)"
proof (intro conjI impI allI)
  assume a: "\<bar>ps\<bar> < 10 ^ max_str_digits \<and> \<bar>mo\<bar> < 10 ^ max_str_digits
      \<and> \<bar>pt\<bar> < 10 ^ max_str_digits \<and> \<bar>pr\<bar> < 10 ^ max_str_digits
      \<and> env ''DB_POOL_SIZE'' = Some (py_str ps) \<and> env ''DB_MAX_OVERFLOW'' = Some (py_str mo)
      \<and> env ''DB_POOL_TIMEOUT'' = Some (py_str pt) \<and> env ''DB_POOL_RECYCLE'' = Some (py_str pr)"
  then have "DB_POOL_SIZE env = Inr ps" "DB_MAX_OVERFLOW env = Inr mo"
    "DB_POOL_TIMEOUT env = Inr pt" "DB_POOL_RECYCLE env = Inr pr"
    by (simp_all add: DB_POOL_SIZE_def DB_MAX_OVERFLOW_def DB_POOL_TIMEOUT_def
        DB_POOL_RECYCLE_def os_getenv_def py_int_py_str)
  then show "resolve_config env =
          Inr \<lparr>cfg_url = DATABASE_URL env, cfg_pool_size = ps, cfg_max_overflow = mo,
               cfg_pool_timeout = pt, cfg_pool_recycle = pr\<rparr>"
    by (simp add: resolve_config_def)
next
  show "(\<exists>c. resolve_config env = Inr c) \<longleftrightarrow>
        \<not> isl (DB_POOL_SIZE env) \<and> \<not> isl (DB_MAX_OVERFLOW env)
        \<and> \<not> isl (DB_POOL_TIMEOUT env) \<and> \<not> isl (DB_POOL_RECYCLE env)"
    by (auto simp: resolve_config_def split: sum.splits)
next
  fix e assume "DB_POOL_SIZE env = Inl e"
  then show "resolve_config env = Inl e" by (simp add: resolve_config_def)
qed

theorem C9_no_range_validation_witness:
  "resolve_config [''DB_POOL_SIZE'' \<mapsto> ''-5'', ''DB_MAX_OVERFLOW'' \<mapsto> ''-1'',
                   ''DB_POOL_TIMEOUT'' \<mapsto> ''0'', ''DB_POOL_RECYCLE'' \<mapsto> ''-3600'']
     = Inr \<lparr>cfg_url = ''sqlite:///./churn_api.db'', cfg_pool_size = - 5,
            cfg_max_overflow = - 1, cfg_pool_timeout = 0, cfg_pool_recycle = - 3600\<rparr>"
proof -
  let ?env = "[''DB_POOL_SIZE'' \<mapsto> ''-5'', ''DB_MAX_OVERFLOW'' \<mapsto> ''-1'',
               ''DB_POOL_TIMEOUT'' \<mapsto> ''0'', ''DB_POOL_RECYCLE'' \<mapsto> ''-3600'']"
  have l: "\<bar>- 5\<bar> < (10::int) ^ max_str_digits" "\<bar>- 1\<bar> < (10::int) ^ max_str_digits"
    "\<bar>0\<bar> < (10::int) ^ max_str_digits" "\<bar>- 3600\<bar> < (10::int) ^ max_str_digits"
    by (rule small_in_limit, simp)+
  have s: "py_str (- 5) = ''-5''" "py_str (- 1) = ''-1''" "py_str 0 = ''0''"
    "py_str (- 3600) = ''-3600''"
    by code_simp+
  have u: "DATABASE_URL ?env = ''sqlite:///./churn_api.db''"
    by (simp add: DATABASE_URL_def os_getenv_def)
  show ?thesis
    using C9_no_range_validation [of "- 5" "- 1" 0 "- 3600" ?env] l s u by simp
qed

section \<open>The session generator\<close>

lemma lib_call_events: "lib_call b c w = (r, w') \<Longrightarrow> events w' = events w @ [Called c]"
  by (auto simp: lib_call_def)

lemma lib_call_tables: "lib_call b c w = (r, w') \<Longrightarrow> tables w' = tables w"
  by (auto simp: lib_call_def)

lemma lib_call_result:
  "lib_call b c w = (r, w') \<Longrightarrow> r = (case b c of Some e \<Rightarrow> Inl e | None \<Rightarrow> Inr ())"
  by (auto simp: lib_call_def)

lemma get_db_Finished: "get_db b x (Finished, w) = (out, pc, w') \<Longrightarrow>
    pc = Finished \<and> w' = w \<and> out \<noteq> Yield"
  by (cases x) auto

lemma get_db_Suspended: "get_db b x (Suspended, w) = (out, pc, w') \<Longrightarrow>
    pc = Finished \<and> events w' = events w @ [Called SessionClose] \<and> out \<noteq> Yield"
  by (cases x) (auto simp: lib_call_def split: option.splits)

lemma drive_Finished: "drive b xs (Finished, w) = (outs, pc, w') \<Longrightarrow>
    pc = Finished \<and> w' = w \<and> Yield \<notin> set outs"
proof (induction xs arbitrary: outs pc w')
  case Nil
  then show ?case by simp
next
  case (Cons x xs)
  obtain out where g: "get_db b x (Finished, w) = (out, Finished, w)" and y: "out \<noteq> Yield"
    using get_db_Finished [of b x w] by (cases "get_db b x (Finished, w)") auto
  obtain outs' pc' w'' where d: "drive b xs (Finished, w) = (outs', pc', w'')"
    by (cases "drive b xs (Finished, w)") auto
  from Cons.IH [OF d] have "pc' = Finished" "w'' = w" "Yield \<notin> set outs'" by auto
  with Cons.prems g d y show ?case by auto
qed

lemma drive_Suspended: "xs \<noteq> [] \<Longrightarrow> drive b xs (Suspended, w) = (outs, pc, w') \<Longrightarrow>
    pc = Finished \<and> events w' = events w @ [Called SessionClose] \<and> Yield \<notin> set outs"
proof -
  assume ne: "xs \<noteq> []" and dr: "drive b xs (Suspended, w) = (outs, pc, w')"
  obtain x ys where xs: "xs = x # ys" using ne by (cases xs) auto
  obtain out pc1 w1 where g: "get_db b x (Suspended, w) = (out, pc1, w1)"
    by (cases "get_db b x (Suspended, w)") auto
  from get_db_Suspended [OF g]
  have 1: "pc1 = Finished" "events w1 = events w @ [Called SessionClose]" "out \<noteq> Yield"
    by auto
  obtain outs' pc' w'' where d: "drive b ys (Finished, w1) = (outs', pc', w'')"
    by (cases "drive b ys (Finished, w1)") auto
  from drive_Finished [OF d] have 2: "pc' = Finished" "w'' = w1" "Yield \<notin> set outs'" by auto
  from dr xs g d 1 have "outs = out # outs'" "pc = pc'" "w' = w''" by auto
  with 1 2 show ?thesis by auto
qed

text \<open>
  Claim C3. However the caller leaves the generator once it has yielded its session --
  by \<open>next\<close> (the normal return, \<open>StopIteration\<close>), by \<open>throw\<close> (an exception of the
  caller's code) or by \<open>close\<close> (early termination) -- the \<open>finally\<close> clause calls
  \<open>db.close()\<close> once and the generator is finished. Over any sequence of operations on
  one generator, \<open>db.close()\<close> has been called once if the generator yielded a session and
  has finished, and not at all otherwise: never twice, and never on a path that yielded
  no session.
\<close>

theorem C3_session_closed_exactly_once:
  "(case get_db b x (Suspended, w) of
      (out, pc, w') \<Rightarrow> pc = Finished \<and> events w' = events w @ [Called SessionClose])
   \<and> (case drive b xs (Created, w) of
      (outs, pc, w') \<Rightarrow>
        count_list (events w') (Called SessionClose) =
          count_list (events w) (Called SessionClose)
          + (if Yield \<in> set outs \<and> pc = Finished then 1 else 0))"
proof
  show "case get_db b x (Suspended, w) of
      (out, pc, w') \<Rightarrow> pc = Finished \<and> events w' = events w @ [Called SessionClose]"
    using get_db_Suspended [of b x w] by (cases "get_db b x (Suspended, w)") auto
next
  obtain outs pc w' where dr: "drive b xs (Created, w) = (outs, pc, w')"
    by (cases "drive b xs (Created, w)") auto
  have "count_list (events w') (Called SessionClose) =
          count_list (events w) (Called SessionClose)
          + (if Yield \<in> set outs \<and> pc = Finished then 1 else 0)"
  proof (cases xs)
    case Nil
    with dr show ?thesis by auto
  next
    case (Cons y ys)
    obtain out pc1 w1 where g: "get_db b y (Created, w) = (out, pc1, w1)"
      by (cases "get_db b y (Created, w)") auto
    obtain outs' pc' w'' where d: "drive b ys (pc1, w1) = (outs', pc', w'')"
      by (cases "drive b ys (pc1, w1)") auto
    from dr Cons g d have eq: "outs = out # outs'" "pc = pc'" "w' = w''" by auto
    show ?thesis
    proof (cases "out = Yield")
      case False
      with g have fin: "pc1 = Finished"
        and ev: "count_list (events w1) (Called SessionClose)
                   = count_list (events w) (Called SessionClose)"
        by (cases y; auto simp: lib_call_def split: option.splits)+
      from d fin drive_Finished [of b ys w1 outs' pc' w'']
      have "pc' = Finished" "w'' = w1" "Yield \<notin> set outs'" by auto
      with eq False ev show ?thesis by auto
    next
      case True
      with g have sus: "pc1 = Suspended"
        and ev: "events w1 = events w @ [Called SessionLocal]"
        by (cases y; auto simp: lib_call_def split: option.splits)+
      show ?thesis
      proof (cases ys)
        case Nil
        with d sus eq True ev show ?thesis by auto
      next
        case (Cons z zs)
        then have "ys \<noteq> []" by simp
        from drive_Suspended [OF this] d sus
        have "pc' = Finished" "events w'' = events w1 @ [Called SessionClose]" by auto
        with eq True ev show ?thesis by auto
      qed
    qed
  qed
  with dr show "case drive b xs (Created, w) of
      (outs, pc, w') \<Rightarrow>
        count_list (events w') (Called SessionClose) =
          count_list (events w) (Called SessionClose)
          + (if Yield \<in> set outs \<and> pc = Finished then 1 else 0)"
    by simp
qed

theorem C3_session_closed_exactly_once_witness:
  "drive (\<lambda>c. None) [Next, Throw (RuntimeError ''boom'')] (Created, \<lparr>tables = Map.empty, events = []\<rparr>)
     = ([Yield, Raise (RuntimeError ''boom'')], Finished,
        \<lparr>tables = Map.empty, events = [Called SessionLocal, Called SessionClose]\<rparr>)
   \<and> count_list [Called SessionLocal, Called SessionClose] (Called SessionClose) = 1"
  using C3_session_closed_exactly_once
    [where b = "\<lambda>c. None" and x = Next and w = "\<lparr>tables = Map.empty, events = []\<rparr>"
       and xs = "[Next, Throw (RuntimeError ''boom'')]"]
  by (simp add: lib_call_def)

section \<open>The health check\<close>

text \<open>
  The function is total: it returns a boolean whatever the library calls do. It returns
  \<open>True\<close> exactly when the three calls succeed, and has then closed the session; when
  the query raises, the log line is its last action.
\<close>

lemma check_db_connection_True_iff:
  "fst (check_db_connection b w) \<longleftrightarrow>
     b SessionLocal = None \<and> b (SessionExecute ''SELECT 1'') = None \<and> b SessionClose = None"
  by (auto simp: check_db_connection_def check_db_connection_try_def lib_call_def
      split: option.splits)

lemma check_db_connection_success:
  "fst (check_db_connection b w) \<Longrightarrow>
     events (snd (check_db_connection b w)) =
       events w @ [Called SessionLocal, Called (SessionExecute ''SELECT 1''), Called SessionClose]"
  by (auto simp: check_db_connection_def check_db_connection_try_def lib_call_def
      split: option.splits)

lemma check_db_connection_execute_fails:
  "b SessionLocal = None \<Longrightarrow> b (SessionExecute ''SELECT 1'') = Some e \<Longrightarrow>
     check_db_connection b w =
       (False, w\<lparr>events := events w @
          [Called SessionLocal, Called (SessionExecute ''SELECT 1''),
           Logged ERROR (''Database connection check failed: '' @ exn_str e)]\<rparr>)"
  by (simp add: check_db_connection_def check_db_connection_try_def lib_call_def logger_def)

text \<open>
  Claim C4 holds for the value returned and for the log line, and fails for the session:
  \<open>db.close()\<close> stands inside the \<open>try\<close>, after \<open>db.execute\<close>, and there is no \<open>finally\<close>
  as in \<open>get_db\<close>. When the query raises, the function logs the error and returns
  \<open>False\<close>, and the session it opened is never closed.
\<close>

theorem C4_session_left_open_on_failure:
  "check_db_connection ((\<lambda>c. None)(SessionExecute ''SELECT 1'' \<mapsto> DBError ''connection refused''))
     \<lparr>tables = Map.empty, events = []\<rparr>
   = (False,
      \<lparr>tables = Map.empty,
       events = [Called SessionLocal, Called (SessionExecute ''SELECT 1''),
                 Logged ERROR ''Database connection check failed: connection refused'']\<rparr>)"
  by (simp add: check_db_connection_def check_db_connection_try_def lib_call_def logger_def)

section \<open>The schema helpers\<close>

subsection \<open>What the two table loops do\<close>

lemma create_tables_ok:
  "create_tables b ts w = (Inr u, w') \<Longrightarrow>
     tables w' = (\<lambda>t. if t \<in> set ts \<and> tables w t = None then Some 0 else tables w t)
     \<and> (\<exists>es. events w' = events w @ es
            \<and> set es = (\<lambda>t. Called (CreateTable t)) ` {t \<in> set ts. tables w t = None})"
proof (induction ts arbitrary: w)
  case Nil
  then show ?case by auto
next
  case (Cons t ts)
  show ?case
  proof (cases "tables w t = None")
    case False
    with Cons.prems have "create_tables b ts w = (Inr u, w')" by simp
    from Cons.IH [OF this] False show ?thesis by (auto simp: fun_eq_iff)
  next
    case True
    let ?w1 = "w\<lparr>events := events w @ [Called (CreateTable t)]\<rparr>"
    let ?w2 = "?w1\<lparr>tables := (tables ?w1)(t \<mapsto> 0)\<rparr>"
    from Cons.prems True have ok: "b (CreateTable t) = None"
      and rec: "create_tables b ts ?w2 = (Inr u, w')"
      by (auto simp: lib_call_def split: option.splits)
    from Cons.IH [OF rec] obtain es where
      tb: "tables w' = (\<lambda>x. if x \<in> set ts \<and> tables ?w2 x = None then Some 0 else tables ?w2 x)"
      and ev: "events w' = events ?w2 @ es"
      and se: "set es = (\<lambda>t. Called (CreateTable t)) ` {x \<in> set ts. tables ?w2 x = None}"
      by blast
    have 1: "tables w' = (\<lambda>x. if x \<in> set (t # ts) \<and> tables w x = None then Some 0 else tables w x)"
      using tb True by (auto simp: fun_eq_iff)
    have 2: "events w' = events w @ (Called (CreateTable t) # es)" using ev by simp
    have 3: "set (Called (CreateTable t) # es)
         = (\<lambda>t. Called (CreateTable t)) ` {x \<in> set (t # ts). tables w x = None}"
      using se True by auto
    from 1 2 3 show ?thesis by blast
  qed
qed

lemma create_tables_ok_iff:
  "(\<exists>w'. create_tables b ts w = (Inr (), w')) \<longleftrightarrow>
     (\<forall>t \<in> set ts. tables w t = None \<longrightarrow> b (CreateTable t) = None)"
proof (induction ts arbitrary: w)
  case Nil
  then show ?case by simp
next
  case (Cons t ts)
  show ?case
  proof (cases "tables w t = None")
    case False
    then show ?thesis using Cons.IH [of w] by auto
  next
    case True
    let ?w2 = "w\<lparr>events := events w @ [Called (CreateTable t)], tables := (tables w)(t \<mapsto> 0)\<rparr>"
    show ?thesis
    proof (cases "b (CreateTable t)")
      case (Some e)
      with True show ?thesis by (auto simp: lib_call_def)
    next
      case None
      with True have "create_tables b (t # ts) w = create_tables b ts ?w2"
        by (simp add: lib_call_def)
      moreover have "(\<forall>x \<in> set ts. tables ?w2 x = None \<longrightarrow> b (CreateTable x) = None)
          \<longleftrightarrow> (\<forall>x \<in> set (t # ts). tables w x = None \<longrightarrow> b (CreateTable x) = None)"
        using None by auto
      ultimately show ?thesis using Cons.IH [of ?w2] by simp
    qed
  qed
qed

lemma create_tables_fail:
  "create_tables b ts w = (Inl e, w') \<Longrightarrow>
     \<exists>t. b (CreateTable t) = Some e \<and> Called (CreateTable t) \<in> set (events w')"
proof (induction ts arbitrary: w)
  case Nil
  then show ?case by simp
next
  case (Cons t ts)
  show ?case
  proof (cases "tables w t = None")
    case False
    with Cons.prems have "create_tables b ts w = (Inl e, w')" by simp
    from Cons.IH [OF this] show ?thesis .
  next
    case True
    show ?thesis
    proof (cases "b (CreateTable t)")
      case (Some e')
      with True Cons.prems have "e' = e" "events w' = events w @ [Called (CreateTable t)]"
        by (auto simp: lib_call_def)
      with Some show ?thesis by auto
    next
      case None
      with True Cons.prems obtain w2 where "create_tables b ts w2 = (Inl e, w')"
        by (auto simp: lib_call_def)
      from Cons.IH [OF this] show ?thesis .
    qed
  qed
qed

lemma drop_tables_ok:
  "drop_tables b ts w = (Inr u, w') \<Longrightarrow>
     tables w' = (\<lambda>t. if t \<in> set ts then None else tables w t)
     \<and> (\<exists>es. events w' = events w @ es)"
proof (induction ts arbitrary: w)
  case Nil
  then show ?case by auto
next
  case (Cons t ts)
  show ?case
  proof (cases "tables w t = None")
    case True
    with Cons.prems have "drop_tables b ts w = (Inr u, w')" by simp
    from Cons.IH [OF this] True show ?thesis by (auto simp: fun_eq_iff)
  next
    case False
    let ?w1 = "w\<lparr>events := events w @ [Called (DropTable t)]\<rparr>"
    let ?w2 = "?w1\<lparr>tables := (tables ?w1)(t := None)\<rparr>"
    from Cons.prems False have rec: "drop_tables b ts ?w2 = (Inr u, w')"
      by (auto simp: lib_call_def split: option.splits)
    from Cons.IH [OF rec] obtain es where
      tb: "tables w' = (\<lambda>x. if x \<in> set ts then None else tables ?w2 x)"
      and ev: "events w' = events ?w2 @ es"
      by blast
    have 1: "tables w' = (\<lambda>x. if x \<in> set (t # ts) then None else tables w x)"
      using tb by (auto simp: fun_eq_iff)
    have 2: "events w' = events w @ (Called (DropTable t) # es)" using ev by simp
    from 1 2 show ?thesis by blast
  qed
qed

lemma drop_tables_ok_iff:
  "(\<exists>w'. drop_tables b ts w = (Inr (), w')) \<longleftrightarrow>
     (\<forall>t \<in> set ts. tables w t \<noteq> None \<longrightarrow> b (DropTable t) = None)"
proof (induction ts arbitrary: w)
  case Nil
  then show ?case by simp
next
  case (Cons t ts)
  show ?case
  proof (cases "tables w t = None")
    case True
    then show ?thesis using Cons.IH [of w] by auto
  next
    case False
    let ?w2 = "w\<lparr>events := events w @ [Called (DropTable t)], tables := (tables w)(t := None)\<rparr>"
    show ?thesis
    proof (cases "b (DropTable t)")
      case (Some e)
      with False show ?thesis by (auto simp: lib_call_def)
    next
      case None
      with False have "drop_tables b (t # ts) w = drop_tables b ts ?w2"
        by (auto simp: lib_call_def)
      moreover have "(\<forall>x \<in> set ts. tables ?w2 x \<noteq> None \<longrightarrow> b (DropTable x) = None)
          \<longleftrightarrow> (\<forall>x \<in> set (t # ts). tables w x \<noteq> None \<longrightarrow> b (DropTable x) = None)"
        using None by auto
      ultimately show ?thesis using Cons.IH [of ?w2] by simp
    qed
  qed
qed


lemma create_all_ok:
  "create_all b reg w = (Inr u, w') \<Longrightarrow>
     tables w' = (\<lambda>t. if t \<in> set reg \<and> tables w t = None then Some 0 else tables w t)
     \<and> (\<exists>es. events w' = events w @ Called CreateAll # es
            \<and> set es = (\<lambda>t. Called (CreateTable t)) ` {t \<in> set reg. tables w t = None})"
proof -
  assume a: "create_all b reg w = (Inr u, w')"
  let ?w1 = "w\<lparr>events := events w @ [Called CreateAll]\<rparr>"
  from a have "create_tables b reg ?w1 = (Inr u, w')"
    by (auto simp: create_all_def lib_call_def split: option.splits)
  from create_tables_ok [OF this] show ?thesis by (simp cong: if_cong)
qed

lemma create_all_ok_iff:
  "(\<exists>w'. create_all b reg w = (Inr (), w')) \<longleftrightarrow>
     b CreateAll = None \<and> (\<forall>t \<in> set reg. tables w t = None \<longrightarrow> b (CreateTable t) = None)"
proof (cases "b CreateAll")
  case (Some e)
  then show ?thesis by (simp add: create_all_def lib_call_def)
next
  case None
  let ?w1 = "w\<lparr>events := events w @ [Called CreateAll]\<rparr>"
  from None have "create_all b reg w = create_tables b reg ?w1"
    by (simp add: create_all_def lib_call_def)
  then show ?thesis using create_tables_ok_iff [of b reg ?w1] None by simp
qed

lemma create_all_fail:
  "create_all b reg w = (Inl e, w') \<Longrightarrow> \<exists>c. b c = Some e \<and> Called c \<in> set (events w')"
proof (cases "b CreateAll")
  case (Some e')
  assume "create_all b reg w = (Inl e, w')"
  with Some have "e' = e" "events w' = events w @ [Called CreateAll]"
    by (auto simp: create_all_def lib_call_def)
  with Some show ?thesis by auto
next
  case None
  assume "create_all b reg w = (Inl e, w')"
  with None obtain w1 where "create_tables b reg w1 = (Inl e, w')"
    by (auto simp: create_all_def lib_call_def)
  from create_tables_fail [OF this] show ?thesis by blast
qed

lemma init_db_try_ok:
  "init_db_try b reg w = (Inr u, w') \<Longrightarrow>
     tables w' = (\<lambda>t. if t \<in> set reg \<and> tables w t = None then Some 0 else tables w t)
     \<and> (\<exists>es. events w' = events w @ Called CreateAll # es @
            [Logged INFO ''Database tables created successfully'', Called EngineConnect,
             Called (ConnExecute ''SELECT 1''),
             Logged INFO ''Database connection test successful'', Called ConnClose]
          \<and> set es = (\<lambda>t. Called (CreateTable t)) ` {t \<in> set reg. tables w t = None})"
proof -
  assume a: "init_db_try b reg w = (Inr u, w')"
  obtain r w1 where c: "create_all b reg w = (r, w1)" by (cases "create_all b reg w") auto
  with a obtain u1 where r: "r = Inr u1" by (cases r) (auto simp: init_db_try_def)
  from create_all_ok [OF c [unfolded r]] obtain es where
    tb: "tables w1 = (\<lambda>t. if t \<in> set reg \<and> tables w t = None then Some 0 else tables w t)"
    and ev: "events w1 = events w @ Called CreateAll # es"
    and se: "set es = (\<lambda>t. Called (CreateTable t)) ` {t \<in> set reg. tables w t = None}"
    by blast
  from a c r have w': "tables w' = tables w1"
    "events w' = events w1 @
            [Logged INFO ''Database tables created successfully'', Called EngineConnect,
             Called (ConnExecute ''SELECT 1''),
             Logged INFO ''Database connection test successful'', Called ConnClose]"
    by (auto simp: init_db_try_def lib_call_def logger_def split: option.splits)
  from tb ev se w' show ?thesis by auto
qed

lemma init_db_try_ok_iff:
  "(\<exists>w'. init_db_try b reg w = (Inr (), w')) \<longleftrightarrow>
     b CreateAll = None \<and> (\<forall>t \<in> set reg. tables w t = None \<longrightarrow> b (CreateTable t) = None)
     \<and> b EngineConnect = None \<and> b (ConnExecute ''SELECT 1'') = None \<and> b ConnClose = None"
proof -
  obtain r w1 where c: "create_all b reg w = (r, w1)" by (cases "create_all b reg w") auto
  show ?thesis
  proof (cases r)
    case (Inl e)
    with c have "\<not> (\<exists>w'. create_all b reg w = (Inr (), w'))" by simp
    moreover from c Inl have "\<not> (\<exists>w'. init_db_try b reg w = (Inr (), w'))"
      by (simp add: init_db_try_def)
    ultimately show ?thesis using create_all_ok_iff [of b reg w] by blast
  next
    case (Inr u)
    with c have "\<exists>w'. create_all b reg w = (Inr (), w')" by simp
    then have ok: "b CreateAll = None
        \<and> (\<forall>t \<in> set reg. tables w t = None \<longrightarrow> b (CreateTable t) = None)"
      using create_all_ok_iff [of b reg w] by blast
    from c Inr have "(\<exists>w'. init_db_try b reg w = (Inr (), w')) \<longleftrightarrow>
        b EngineConnect = None \<and> b (ConnExecute ''SELECT 1'') = None \<and> b ConnClose = None"
      by (auto simp: init_db_try_def lib_call_def split: option.splits)
    with ok show ?thesis by blast
  qed
qed

lemma init_db_try_fail:
  "init_db_try b reg w = (Inl e, w') \<Longrightarrow> \<exists>c. b c = Some e \<and> Called c \<in> set (events w')"
proof -
  assume a: "init_db_try b reg w = (Inl e, w')"
  obtain r w1 where c: "create_all b reg w = (r, w1)" by (cases "create_all b reg w") auto
  show ?thesis
  proof (cases r)
    case (Inl e1)
    with a c have "e1 = e" "w1 = w'" by (auto simp: init_db_try_def)
    with c Inl create_all_fail [of b reg w e w'] show ?thesis by simp
  next
    case (Inr u)
    with a c show ?thesis
      by (auto simp: init_db_try_def lib_call_def logger_def split: option.splits)
  qed
qed

lemma drop_all_ok:
  "drop_all b reg w = (Inr u, w') \<Longrightarrow>
     tables w' = (\<lambda>t. if t \<in> set reg then None else tables w t)
     \<and> (\<exists>es. events w' = events w @ Called DropAll # es)"
proof -
  assume a: "drop_all b reg w = (Inr u, w')"
  let ?w1 = "w\<lparr>events := events w @ [Called DropAll]\<rparr>"
  from a have "drop_tables b (rev reg) ?w1 = (Inr u, w')"
    by (auto simp: drop_all_def lib_call_def split: option.splits)
  from drop_tables_ok [OF this] show ?thesis by (simp cong: if_cong)
qed

lemma drop_all_ok_iff:
  "(\<exists>w'. drop_all b reg w = (Inr (), w')) \<longleftrightarrow>
     b DropAll = None \<and> (\<forall>t \<in> set reg. tables w t \<noteq> None \<longrightarrow> b (DropTable t) = None)"
proof (cases "b DropAll")
  case (Some e)
  then show ?thesis by (simp add: drop_all_def lib_call_def)
next
  case None
  let ?w1 = "w\<lparr>events := events w @ [Called DropAll]\<rparr>"
  from None have "drop_all b reg w = drop_tables b (rev reg) ?w1"
    by (simp add: drop_all_def lib_call_def)
  then show ?thesis using drop_tables_ok_iff [of b "rev reg" ?w1] None by simp
qed

lemma init_db_ok:
  "init_db b reg w = (Inr u, w') \<Longrightarrow> init_db_try b reg w = (Inr (), w')"
  by (cases "init_db_try b reg w") (auto simp: init_db_def split: sum.splits)

lemma drop_db_ok:
  "drop_db b reg w = (Inr u, w') \<Longrightarrow>
     \<exists>w1. drop_all b reg w = (Inr (), w1) \<and> w' = logger WARNING ''All database tables dropped'' w1"
  by (cases "drop_all b reg w") (auto simp: drop_db_def split: sum.splits)

subsection \<open>\<open>init_db\<close>\<close>

text \<open>
  Claim C6. \<open>init_db\<close> returns normally exactly when none of its steps raises: taking the
  connection for \<open>create_all\<close>, creating each registered table that does not exist yet,
  \<open>engine.connect()\<close>, the query \<open>SELECT 1\<close>, and closing the connection. Then every
  registered table exists, the tables that existed keep their rows, the new ones are
  empty, and the calls were made in this order, with the two success lines logged. When
  a step raises, the function logs \<open>Failed to create database tables:\<close> with the
  exception as its last action, and the exception it raises is the one a call it made
  has raised.
\<close>

theorem C6_init_db:
  "((\<exists>w'. init_db b reg w = (Inr (), w')) \<longleftrightarrow>
       b CreateAll = None \<and> (\<forall>t \<in> set reg. tables w t = None \<longrightarrow> b (CreateTable t) = None)
       \<and> b EngineConnect = None \<and> b (ConnExecute ''SELECT 1'') = None \<and> b ConnClose = None)
   \<and> (\<forall>w'. init_db b reg w = (Inr (), w') \<longrightarrow>
        tables w' = (\<lambda>t. if t \<in> set reg \<and> tables w t = None then Some 0 else tables w t)
        \<and> (\<exists>es. events w' = events w @ Called CreateAll # es @
              [Logged INFO ''Database tables created successfully'', Called EngineConnect,
               Called (ConnExecute ''SELECT 1''),
               Logged INFO ''Database connection test successful'', Called ConnClose]
            \<and> set es = (\<lambda>t. Called (CreateTable t)) ` {t \<in> set reg. tables w t = None}))
   \<and> (\<forall>e w'. init_db b reg w = (Inl e, w') \<longrightarrow>
        last (events w') = Logged ERROR (''Failed to create database tables: '' @ exn_str e)
        \<and> (\<exists>c. b c = Some e \<and> Called c \<in> set (events w')))"
proof (intro conjI allI impI)
  have "(\<exists>w'. init_db b reg w = (Inr (), w')) \<longleftrightarrow> (\<exists>w'. init_db_try b reg w = (Inr (), w'))"
    by (cases "init_db_try b reg w") (auto simp: init_db_def split: sum.splits)
  then show "(\<exists>w'. init_db b reg w = (Inr (), w')) \<longleftrightarrow>
       b CreateAll = None \<and> (\<forall>t \<in> set reg. tables w t = None \<longrightarrow> b (CreateTable t) = None)
       \<and> b EngineConnect = None \<and> b (ConnExecute ''SELECT 1'') = None \<and> b ConnClose = None"
    using init_db_try_ok_iff [of b reg w] by simp
next
  fix w' assume "init_db b reg w = (Inr (), w')"
  then have t: "init_db_try b reg w = (Inr (), w')"
    by (cases "init_db_try b reg w") (auto simp: init_db_def split: sum.splits)
  from init_db_try_ok [OF t]
  show "tables w' = (\<lambda>t. if t \<in> set reg \<and> tables w t = None then Some 0 else tables w t)"
    and "\<exists>es. events w' = events w @ Called CreateAll # es @
              [Logged INFO ''Database tables created successfully'', Called EngineConnect,
               Called (ConnExecute ''SELECT 1''),
               Logged INFO ''Database connection test successful'', Called ConnClose]
            \<and> set es = (\<lambda>t. Called (CreateTable t)) ` {t \<in> set reg. tables w t = None}"
    by blast+
next
  fix e w' assume a: "init_db b reg w = (Inl e, w')"
  then obtain w1 where t: "init_db_try b reg w = (Inl e, w1)"
    and w': "w' = logger ERROR (''Failed to create database tables: '' @ exn_str e) w1"
    by (cases "init_db_try b reg w") (auto simp: init_db_def split: sum.splits)
  from w' show "last (events w') = Logged ERROR (''Failed to create database tables: '' @ exn_str e)"
    by (simp add: logger_def)
  from init_db_try_fail [OF t] w' show "\<exists>c. b c = Some e \<and> Called c \<in> set (events w')"
    by (auto simp: logger_def)
qed

theorem C6_init_db_witness:
  "fst (init_db (\<lambda>c. None) [''users'', ''predictions'']
          \<lparr>tables = [''users'' \<mapsto> 7], events = []\<rparr>) = Inr ()
   \<and> tables (snd (init_db (\<lambda>c. None) [''users'', ''predictions'']
          \<lparr>tables = [''users'' \<mapsto> 7], events = []\<rparr>)) ''users'' = Some 7
   \<and> tables (snd (init_db (\<lambda>c. None) [''users'', ''predictions'']
          \<lparr>tables = [''users'' \<mapsto> 7], events = []\<rparr>)) ''predictions'' = Some 0
   \<and> fst (init_db ((\<lambda>c. None)(EngineConnect \<mapsto> DBError ''server down'')) [''users'']
          \<lparr>tables = Map.empty, events = []\<rparr>) = Inl (DBError ''server down'')
   \<and> last (events (snd (init_db ((\<lambda>c. None)(EngineConnect \<mapsto> DBError ''server down''))
          [''users''] \<lparr>tables = Map.empty, events = []\<rparr>)))
       = Logged ERROR ''Failed to create database tables: server down''"
proof -
  let ?w = "\<lparr>tables = [''users'' \<mapsto> (7::nat)], events = []\<rparr>"
  let ?r = "init_db (\<lambda>c. None) [''users'', ''predictions''] ?w"
  note T = C6_init_db [where b = "\<lambda>c. None" and reg = "[''users'', ''predictions'']"
      and w = ?w]
  have "\<exists>w'. ?r = (Inr (), w')"
    using T [THEN conjunct1] by simp
  then obtain w' where r: "?r = (Inr (), w')" by blast
  from T [THEN conjunct2, THEN conjunct1] r
  have tb: "tables w' =
      (\<lambda>t. if t \<in> set [''users'', ''predictions''] \<and> tables ?w t = None then Some 0
           else tables ?w t)"
    by blast
  have 1: "tables w' ''users'' = Some 7" "tables w' ''predictions'' = Some 0"
    by (simp_all add: tb)
  let ?b = "(\<lambda>c. None)(EngineConnect \<mapsto> DBError ''server down'')"
  let ?v = "\<lparr>tables = Map.empty :: string \<rightharpoonup> nat, events = []\<rparr>"
  obtain r2 w2 where f: "init_db ?b [''users''] ?v = (r2, w2)"
    by (cases "init_db ?b [''users''] ?v") auto
  have "\<not> (\<exists>w'. init_db ?b [''users''] ?v = (Inr (), w'))"
    using C6_init_db [where b = ?b and reg = "[''users'']" and w = ?v, THEN conjunct1]
    by simp
  with f obtain e where e: "r2 = Inl e" by (cases r2) auto
  from C6_init_db [where b = ?b and reg = "[''users'']" and w = ?v,
      THEN conjunct2, THEN conjunct2] f e
  have l: "last (events w2) = Logged ERROR (''Failed to create database tables: '' @ exn_str e)"
    and c: "\<exists>c. ?b c = Some e \<and> Called c \<in> set (events w2)"
    by blast+
  from c have "e = DBError ''server down''" by (auto split: if_splits)
  with l e f r 1 show ?thesis by simp
qed

subsection \<open>\<open>reset_db\<close>\<close>

text \<open>
  Claim C5, as stated, fails: \<open>drop_all\<close> drops the registered tables only, so a table
  that is in the database and not in the registry is still there after \<open>reset_db\<close>.
  With one registered table, \<open>users\<close>, and a database that holds \<open>alembic_version\<close>,
  two tables exist afterwards.
\<close>

theorem C5_counterexample:
  "fst (reset_db (\<lambda>c. None) [''users'']
         \<lparr>tables = [''alembic_version'' \<mapsto> 1], events = []\<rparr>) = Inr ()
   \<and> tables (snd (reset_db (\<lambda>c. None) [''users'']
         \<lparr>tables = [''alembic_version'' \<mapsto> 1], events = []\<rparr>)) ''alembic_version'' = Some 1
   \<and> ''alembic_version'' \<notin> set [''users'']"
  by (simp add: reset_db_def drop_db_def drop_all_def init_db_def init_db_try_def
      create_all_def lib_call_def logger_def)

text \<open>
  Claim C5, amended. \<open>reset_db\<close> is \<open>drop_db\<close> followed, when it returned, by
  \<open>init_db\<close>, with no condition between them. It returns normally exactly when no step
  of the two raises. Then each of the registered tables exists and is empty, every table
  that is not registered is as it was, and \<open>drop_all\<close> ran before \<open>create_all\<close>; so the
  registered tables are exactly the tables that exist when the database held no
  unregistered table before.
\<close>

theorem C5_reset_db:
  "reset_db b reg w =
      (case drop_db b reg w of (Inl e, w1) \<Rightarrow> (Inl e, w1) | (Inr u, w1) \<Rightarrow> init_db b reg w1)
   \<and> ((\<exists>w'. reset_db b reg w = (Inr (), w')) \<longleftrightarrow>
        b DropAll = None \<and> (\<forall>t \<in> set reg. tables w t \<noteq> None \<longrightarrow> b (DropTable t) = None)
        \<and> b CreateAll = None \<and> (\<forall>t \<in> set reg. b (CreateTable t) = None)
        \<and> b EngineConnect = None \<and> b (ConnExecute ''SELECT 1'') = None \<and> b ConnClose = None)
   \<and> (\<forall>w'. reset_db b reg w = (Inr (), w') \<longrightarrow>
        tables w' = (\<lambda>t. if t \<in> set reg then Some 0 else tables w t)
        \<and> dom (tables w') = set reg \<union> dom (tables w)
        \<and> (dom (tables w) \<subseteq> set reg \<longrightarrow> dom (tables w') = set reg)
        \<and> (\<exists>es1 es2. events w' = events w @ Called DropAll # es1 @
              Logged WARNING ''All database tables dropped'' # Called CreateAll # es2))"
proof (intro conjI allI impI)
  show "reset_db b reg w =
      (case drop_db b reg w of (Inl e, w1) \<Rightarrow> (Inl e, w1) | (Inr u, w1) \<Rightarrow> init_db b reg w1)"
    by (simp add: reset_db_def)
next
  show "(\<exists>w'. reset_db b reg w = (Inr (), w')) \<longleftrightarrow>
        b DropAll = None \<and> (\<forall>t \<in> set reg. tables w t \<noteq> None \<longrightarrow> b (DropTable t) = None)
        \<and> b CreateAll = None \<and> (\<forall>t \<in> set reg. b (CreateTable t) = None)
        \<and> b EngineConnect = None \<and> b (ConnExecute ''SELECT 1'') = None \<and> b ConnClose = None"
  proof (cases "\<exists>w1. drop_all b reg w = (Inr (), w1)")
    case False
    then have "\<not> (\<exists>w'. reset_db b reg w = (Inr (), w'))"
      by (cases "drop_all b reg w") (auto simp: reset_db_def drop_db_def split: sum.splits)
    with False show ?thesis using drop_all_ok_iff [of b reg w] by blast
  next
    case True
    then obtain w1 where d: "drop_all b reg w = (Inr (), w1)" by blast
    let ?w2 = "logger WARNING ''All database tables dropped'' w1"
    from drop_all_ok [OF d] have tb: "\<forall>t \<in> set reg. tables ?w2 t = None"
      by (simp add: logger_def)
    from d have "reset_db b reg w = init_db b reg ?w2"
      by (simp add: reset_db_def drop_db_def)
    then have "(\<exists>w'. reset_db b reg w = (Inr (), w')) \<longleftrightarrow>
        (\<exists>w'. init_db_try b reg ?w2 = (Inr (), w'))"
      by (cases "init_db_try b reg ?w2") (auto simp: init_db_def split: sum.splits)
    also have "\<dots> \<longleftrightarrow> b CreateAll = None \<and> (\<forall>t \<in> set reg. b (CreateTable t) = None)
        \<and> b EngineConnect = None \<and> b (ConnExecute ''SELECT 1'') = None \<and> b ConnClose = None"
      using init_db_try_ok_iff [of b reg ?w2] tb by auto
    finally show ?thesis using True drop_all_ok_iff [of b reg w] by blast
  qed
next
  fix w' assume a: "reset_db b reg w = (Inr (), w')"
  then obtain w2 where dd: "drop_db b reg w = (Inr (), w2)" and i: "init_db b reg w2 = (Inr (), w')"
    by (cases "drop_db b reg w") (auto simp: reset_db_def split: sum.splits)
  from drop_db_ok [OF dd] obtain w1 where d: "drop_all b reg w = (Inr (), w1)"
    and w2: "w2 = logger WARNING ''All database tables dropped'' w1" by blast
  from drop_all_ok [OF d] obtain es1 where
    t1: "tables w1 = (\<lambda>t. if t \<in> set reg then None else tables w t)"
    and e1: "events w1 = events w @ Called DropAll # es1" by blast
  from init_db_try_ok [OF init_db_ok [OF i]] obtain es where
    t2: "tables w' = (\<lambda>t. if t \<in> set reg \<and> tables w2 t = None then Some 0 else tables w2 t)"
    and e2: "events w' = events w2 @ Called CreateAll # es @
            [Logged INFO ''Database tables created successfully'', Called EngineConnect,
             Called (ConnExecute ''SELECT 1''),
             Logged INFO ''Database connection test successful'', Called ConnClose]"
    by blast
  show tb: "tables w' = (\<lambda>t. if t \<in> set reg then Some 0 else tables w t)"
    using t1 t2 w2 by (auto simp: logger_def fun_eq_iff)
  show dm: "dom (tables w') = set reg \<union> dom (tables w)"
    unfolding tb by (auto simp: dom_def)
  show "dom (tables w') = set reg" if "dom (tables w) \<subseteq> set reg"
    using dm that by auto
  have "events w' = events w @ Called DropAll # es1 @
      Logged WARNING ''All database tables dropped'' # Called CreateAll # (es @
            [Logged INFO ''Database tables created successfully'', Called EngineConnect,
             Called (ConnExecute ''SELECT 1''),
             Logged INFO ''Database connection test successful'', Called ConnClose])"
    using e1 e2 w2 by (simp add: logger_def)
  then show "\<exists>es1 es2. events w' = events w @ Called DropAll # es1 @
              Logged WARNING ''All database tables dropped'' # Called CreateAll # es2"
    by blast
qed

theorem C5_reset_db_witness:
  "fst (reset_db (\<lambda>c. None) [''users'', ''predictions'']
         \<lparr>tables = [''users'' \<mapsto> 7], events = []\<rparr>) = Inr ()
   \<and> dom (tables (snd (reset_db (\<lambda>c. None) [''users'', ''predictions'']
         \<lparr>tables = [''users'' \<mapsto> 7], events = []\<rparr>))) = {''users'', ''predictions''}
   \<and> tables (snd (reset_db (\<lambda>c. None) [''users'', ''predictions'']
         \<lparr>tables = [''users'' \<mapsto> 7], events = []\<rparr>)) ''users'' = Some 0"
proof -
  let ?w = "\<lparr>tables = [''users'' \<mapsto> (7::nat)], events = []\<rparr>"
  let ?r = "reset_db (\<lambda>c. None) [''users'', ''predictions''] ?w"
  note T = C5_reset_db [where b = "\<lambda>c. None" and reg = "[''users'', ''predictions'']"
      and w = ?w]
  have "\<exists>w'. ?r = (Inr (), w')"
    using T [THEN conjunct2, THEN conjunct1] by simp
  then obtain w' where r: "?r = (Inr (), w')" by blast
  from T [THEN conjunct2, THEN conjunct2] r
  have tb: "tables w' =
      (\<lambda>t. if t \<in> set [''users'', ''predictions''] then Some 0 else tables ?w t)"
    by blast
  have 1: "tables w' ''users'' = Some 0" by (simp add: tb)
  have 2: "dom (tables w') = {''users'', ''predictions''}"
    unfolding tb by (auto simp: dom_def split: if_splits)
  from r 1 2 show ?thesis by simp
qed

section \<open>The pool counters\<close>








end
